theory Spec2Isabelle
  imports Main "HOL-Library.Sublist"
begin

section \<open>Errors as values\<close>

text \<open>
  A thrown JavaScript value is modelled by the string that
  \<^verbatim>\<open>String(err?.message ?? err)\<close> yields for it.  A computation that may throw
  returns \<open>js_error + 'a\<close>, with \<open>Inl\<close> for the throw.
\<close>

datatype js_error = Error string

fun message_of :: "js_error \<Rightarrow> string" where
  "message_of (Error m) = m"

definition try_catch :: "js_error + 'a \<Rightarrow> (js_error \<Rightarrow> js_error + 'a) \<Rightarrow> js_error + 'a" where
  "try_catch body handler = (case body of Inl e \<Rightarrow> handler e | Inr v \<Rightarrow> Inr v)"

text \<open>\<^verbatim>\<open>Array.prototype.some\<close> and \<^verbatim>\<open>Array.prototype.filter\<close> with a callback that may
  throw: a throw of the callback leaves the loop and propagates.\<close>

fun some_js :: "('a \<Rightarrow> js_error + bool) \<Rightarrow> 'a list \<Rightarrow> js_error + bool" where
  "some_js f [] = Inr False"
| "some_js f (x # xs) =
     (case f x of
        Inl e \<Rightarrow> Inl e
      | Inr b \<Rightarrow> if b then Inr True else some_js f xs)"

fun filter_js :: "('a \<Rightarrow> js_error + bool) \<Rightarrow> 'a list \<Rightarrow> js_error + 'a list" where
  "filter_js f [] = Inr []"
| "filter_js f (x # xs) =
     (case f x of
        Inl e \<Rightarrow> Inl e
      | Inr b \<Rightarrow>
          (case filter_js f xs of
             Inl e \<Rightarrow> Inl e
           | Inr ys \<Rightarrow> Inr (if b then x # ys else ys)))"

section \<open>Allowlist matching (runner.ts, matchesAnyPattern)\<close>

text \<open>
  The regular-expression engine is the JavaScript built-in; it is a parameter of the
  model.  \<open>new_RegExp p flags\<close> is \<^verbatim>\<open>new RegExp(p, flags)\<close>, which throws a SyntaxError
  on a malformed pattern; \<open>regexp_test re text\<close> is \<^verbatim>\<open>re.test(text)\<close>, which on a
  string and an expression without the global or sticky flag returns a boolean and
  keeps no state.
\<close>

record 're RegExp_engine =
  new_RegExp :: "string \<Rightarrow> string \<Rightarrow> js_error + 're"
  regexp_test :: "'re \<Rightarrow> string \<Rightarrow> bool"

text \<open>\<^verbatim>\<open>text.includes(p)\<close>: \<open>p\<close> occurs in \<open>text\<close> as a contiguous run.\<close>

definition str_includes :: "string \<Rightarrow> string \<Rightarrow> bool" where
  "str_includes text p = sublist p text"

definition matchesAnyPattern ::
  "'re RegExp_engine \<Rightarrow> string \<Rightarrow> string list option \<Rightarrow> js_error + bool" where
  "matchesAnyPattern eng text patterns =
     (case patterns of
        None \<Rightarrow> Inr False
      | Some ps \<Rightarrow>
          if length ps = 0 then Inr False
          else some_js (\<lambda>p.
                 try_catch
                   (case new_RegExp eng p ''i'' of
                      Inl e \<Rightarrow> Inl e
                    | Inr re \<Rightarrow> Inr (regexp_test eng re text))
                   (\<lambda>e. Inr (str_includes text p))) ps)"

section \<open>Test definition (schema)\<close>

datatype selector_state = Visible | Hidden | Attached | Detached

text \<open>The discriminated union \<^verbatim>\<open>StepSchema\<close>; an optional field is an \<open>option\<close>.
  Numbers are integers here: a response status is one, and an allowlist entry that is
  not an integer equals no status.\<close>

datatype Step =
    Navigate "string option" "string option"
  | Click string
  | Type string string "bool option"
  | Fill string string
  | WaitForSelector string "selector_state option" "int option"
  | ExpectVisible string "int option"
  | ExpectText string string "int option"
  | Wait int
  | Screenshot "string option"

record Tolerate =
  tol_httpErrors :: "bool option"
  tol_consoleErrors :: "bool option"
  tol_pageErrors :: "bool option"
  tol_requestFailures :: "bool option"
  httpStatusAllowlist :: "int list option"
  httpUrlAllowlist :: "string list option"
  consolePatternAllowlist :: "string list option"

record TestDef =
  name :: string
  description :: "string option"
  test_baseUrl :: "string option"
  steps :: "Step list"
  tolerate :: "Tolerate option"

text \<open>The command-line options that the run reads.\<close>

record Argv =
  argv_baseUrl :: "string option"
  argv_outDir :: string
  ignoreHttpErrors :: bool
  ignoreConsoleErrors :: bool
  ignorePageErrors :: bool
  ignoreRequestFailures :: bool

text \<open>\<^verbatim>\<open>(test as any).tolerate ?? {}\<close>\<close>

definition empty_tolerate :: Tolerate where
  "empty_tolerate =
     \<lparr>tol_httpErrors = None, tol_consoleErrors = None, tol_pageErrors = None,
      tol_requestFailures = None, httpStatusAllowlist = None, httpUrlAllowlist = None,
      consolePatternAllowlist = None\<rparr>"

definition tolerate_of :: "TestDef \<Rightarrow> Tolerate" where
  "tolerate_of t = (case tolerate t of None \<Rightarrow> empty_tolerate | Some c \<Rightarrow> c)"

text \<open>JavaScript truthiness of an optional boolean and of an optional string.\<close>

definition truthy :: "bool option \<Rightarrow> bool" where
  "truthy b = (b = Some True)"

definition truthy_str :: "string option \<Rightarrow> bool" where
  "truthy_str s = (case s of None \<Rightarrow> False | Some x \<Rightarrow> x \<noteq> [])"

section \<open>Browser session and collected signals\<close>

text \<open>
  The Playwright page is an external collaborator.  Its state is an opaque type \<open>'b\<close>;
  an awaited call returns its result (\<open>Inl\<close> when the promise rejects), the page events
  that were delivered to the listeners while the call was awaited, and the next state.
\<close>

datatype page_call =
    Goto string
  | ClickSel string
  | FillSel string string
  | TypeSel string string
  | KeyboardPress string
  | WaitForSel string selector_state int
  | TextContent string
  | WaitForTimeout int
  | TakeScreenshot string

type_synonym location = "string \<times> nat \<times> nat"

datatype page_event =
    ConsoleMsg string string location
  | PageError string
  | RequestFailed string string "string option"
  | Response string int string

record console_error =
  ce_type :: string
  ce_text :: string
  ce_location :: location

record request_failure =
  rf_url :: string
  rf_method :: string
  rf_failure :: string

record http_error =
  url :: string
  status :: int
  statusText :: string

record step_error =
  index :: nat
  step :: Step
  message :: string
  screenshot :: "string option"

text \<open>The summary object that the run hands to the report writers.\<close>

record Counts =
  count_stepErrors :: nat
  count_pageErrors :: nat
  count_consoleErrors :: nat
  count_httpErrors :: nat
  count_requestFailures :: nat

record Summary =
  testName :: string
  sum_description :: "string option"
  sum_baseUrl :: string
  timestamp :: string
  success :: bool
  counts :: Counts
  sum_stepErrors :: "step_error list"
  sum_pageErrors :: "string list"
  sum_consoleErrors :: "console_error list"
  sum_httpErrors :: "http_error list"
  sum_requestFailures :: "request_failure list"

text \<open>
  What the run needs from outside: the page, the browser's launch and close, Node's
  \<^verbatim>\<open>path.join\<close>, \<^verbatim>\<open>new URL(p, base).toString()\<close>, \<^verbatim>\<open>String.prototype.toLowerCase\<close>,
  \<^verbatim>\<open>mkdir\<close>, the two readings of the clock, and the three \<^verbatim>\<open>writeFile\<close> calls that
  persist a summary into the output directory.
\<close>

record 'b Env =
  page :: "page_call \<Rightarrow> 'b \<Rightarrow> (js_error + string option) \<times> page_event list \<times> 'b"
  launch :: "js_error + 'b"
  browser_close :: "'b \<Rightarrow> (js_error + unit) \<times> page_event list"
  path_join :: "string \<Rightarrow> string \<Rightarrow> string"
  new_URL :: "string \<Rightarrow> string \<Rightarrow> js_error + string"
  toLowerCase :: "string \<Rightarrow> string"
  ensureDir :: "string \<Rightarrow> js_error + unit"
  stamp_iso :: string
  timestamp_iso :: string
  write_reports :: "string \<Rightarrow> Summary \<Rightarrow> js_error + unit"

text \<open>The five arrays of \<^verbatim>\<open>run\<close> and the page they are filled from.\<close>

record 'b run_state =
  browser :: 'b
  consoleErrors :: "console_error list"
  pageErrors :: "string list"
  requestFailures :: "request_failure list"
  httpErrors :: "http_error list"
  stepErrors :: "step_error list"

text \<open>The four listeners installed with \<^verbatim>\<open>page.on\<close>.\<close>

fun on_event :: "page_event \<Rightarrow> 'b run_state \<Rightarrow> 'b run_state" where
  "on_event (ConsoleMsg ty txt loc) st =
     (if ty = ''error''
      then st\<lparr>consoleErrors := consoleErrors st @
                 [\<lparr>ce_type = ty, ce_text = txt, ce_location = loc\<rparr>]\<rparr>
      else st)"
| "on_event (PageError e) st = st\<lparr>pageErrors := pageErrors st @ [e]\<rparr>"
| "on_event (RequestFailed u m f) st =
     st\<lparr>requestFailures := requestFailures st @
          [\<lparr>rf_url = u, rf_method = m,
            rf_failure = (case f of None \<Rightarrow> ''unknown'' | Some t \<Rightarrow> t)\<rparr>]\<rparr>"
| "on_event (Response u code txt) st =
     (if code \<ge> 400
      then st\<lparr>httpErrors := httpErrors st @
                 [\<lparr>url = u, status = code, statusText = txt\<rparr>]\<rparr>
      else st)"

definition await_page ::
  "'b Env \<Rightarrow> page_call \<Rightarrow> 'b run_state \<Rightarrow> (js_error + string option) \<times> 'b run_state" where
  "await_page env c st =
     (case page env c (browser st) of
        (r, evs, b') \<Rightarrow> (r, fold on_event evs (st\<lparr>browser := b'\<rparr>)))"

definition and_then ::
  "(js_error + 'a) \<times> 's \<Rightarrow> ('a \<Rightarrow> 's \<Rightarrow> (js_error + 'c) \<times> 's) \<Rightarrow> (js_error + 'c) \<times> 's" where
  "and_then m k = (case m of (Inl e, s) \<Rightarrow> (Inl e, s) | (Inr v, s) \<Rightarrow> k v s)"

definition finish :: "(js_error + 'a) \<times> 's \<Rightarrow> (js_error + unit) \<times> 's" where
  "finish m = and_then m (\<lambda>_ s. (Inr (), s))"

section \<open>Helpers of the runner\<close>

definition is_lower_alnum :: "char \<Rightarrow> bool" where
  "is_lower_alnum c = (c \<in> set ''abcdefghijklmnopqrstuvwxyz0123456789'')"

text \<open>\<^verbatim>\<open>.replace(/[^a-z0-9]+/g, "-")\<close>; the flag says whether the previous character
  already belongs to the run being replaced.\<close>

fun dash_runs :: "bool \<Rightarrow> string \<Rightarrow> string" where
  "dash_runs in_run [] = []"
| "dash_runs in_run (c # cs) =
     (if is_lower_alnum c then c # dash_runs False cs
      else if in_run then dash_runs True cs
      else CHR ''-'' # dash_runs True cs)"

text \<open>\<^verbatim>\<open>.replace(/(^-|-$)/g, "")\<close>\<close>

definition trim_dashes :: "string \<Rightarrow> string" where
  "trim_dashes s =
     (let s1 = (if s \<noteq> [] \<and> hd s = CHR ''-'' then tl s else s)
      in if s1 \<noteq> [] \<and> last s1 = CHR ''-'' then butlast s1 else s1)"

definition slugify :: "'b Env \<Rightarrow> string \<Rightarrow> string" where
  "slugify env s = trim_dashes (dash_runs False (toLowerCase env s))"

text \<open>The decimal numeral of a step number, as a template literal prints it.\<close>

definition digit_char :: "nat \<Rightarrow> char" where
  "digit_char d = ''0123456789'' ! (d mod 10)"

fun decimal :: "nat \<Rightarrow> string" where
  "decimal n = (if n < 10 then [digit_char n] else decimal (n div 10) @ [digit_char (n mod 10)])"

declare decimal.simps [simp del]

definition absUrl :: "'b Env \<Rightarrow> string \<Rightarrow> string option \<Rightarrow> string" where
  "absUrl env baseUrl p =
     (case p of
        None \<Rightarrow> baseUrl
      | Some q \<Rightarrow>
          if q = [] then baseUrl
          else (case new_URL env q baseUrl of Inl e \<Rightarrow> q | Inr u \<Rightarrow> u))"

section \<open>Step execution (runner.ts, doStep and the step loop)\<close>

definition default_state :: "selector_state option \<Rightarrow> selector_state" where
  "default_state s = (case s of None \<Rightarrow> Visible | Some x \<Rightarrow> x)"

definition default_timeout :: "int option \<Rightarrow> int" where
  "default_timeout t = (case t of None \<Rightarrow> 10000 | Some x \<Rightarrow> x)"

definition expect_text_message :: "string \<Rightarrow> string \<Rightarrow> string option \<Rightarrow> string" where
  "expect_text_message txt sel content =
     ''Expected text '' @ [CHR 0x22] @ txt @ [CHR 0x22] @ '' in '' @ sel @ '', got: '' @
     (case content of None \<Rightarrow> ''<empty>'' | Some c \<Rightarrow> c)"

text \<open>The body of the \<^verbatim>\<open>try\<close> block of \<^verbatim>\<open>doStep\<close>: the \<^verbatim>\<open>switch\<close> on the action.
  \<open>Inl\<close> is what reaches the \<^verbatim>\<open>catch\<close>.\<close>

fun step_action ::
  "'b Env \<Rightarrow> string \<Rightarrow> string \<Rightarrow> nat \<Rightarrow> Step \<Rightarrow> 'b run_state \<Rightarrow> (js_error + unit) \<times> 'b run_state" where
  "step_action env baseUrl outDir i (Navigate u p) st =
     (let target = (case u of Some x \<Rightarrow> x | None \<Rightarrow> absUrl env baseUrl p)
      in if target = [] then (Inl (Error ''navigate requires url or path''), st)
         else finish (await_page env (Goto target) st))"
| "step_action env baseUrl outDir i (Click sel) st =
     finish (await_page env (ClickSel sel) st)"
| "step_action env baseUrl outDir i (Type sel txt pressEnter) st =
     and_then (await_page env (FillSel sel []) st) (\<lambda>_ s1.
     and_then (await_page env (TypeSel sel txt) s1) (\<lambda>_ s2.
       if truthy pressEnter then finish (await_page env (KeyboardPress ''Enter'') s2)
       else (Inr (), s2)))"
| "step_action env baseUrl outDir i (Fill sel txt) st =
     finish (await_page env (FillSel sel txt) st)"
| "step_action env baseUrl outDir i (WaitForSelector sel state timeoutMs) st =
     finish (await_page env (WaitForSel sel (default_state state) (default_timeout timeoutMs)) st)"
| "step_action env baseUrl outDir i (ExpectVisible sel timeoutMs) st =
     finish (await_page env (WaitForSel sel Visible (default_timeout timeoutMs)) st)"
| "step_action env baseUrl outDir i (ExpectText sel txt timeoutMs) st =
     and_then (await_page env (WaitForSel sel Visible (default_timeout timeoutMs)) st) (\<lambda>_ s1.
     and_then (await_page env (TextContent sel) s1) (\<lambda>content s2.
       if \<not> truthy_str content \<or> \<not> str_includes (case content of None \<Rightarrow> [] | Some c \<Rightarrow> c) txt
       then (Inl (Error (expect_text_message txt sel content)), s2)
       else (Inr (), s2)))"
| "step_action env baseUrl outDir i (Wait ms) st =
     finish (await_page env (WaitForTimeout ms) st)"
| "step_action env baseUrl outDir i (Screenshot nm) st =
     (let name = (if truthy_str nm
                  then decimal i @ ''-'' @ slugify env (case nm of None \<Rightarrow> [] | Some x \<Rightarrow> x)
                  else decimal i @ ''-screenshot'');
          p = path_join env outDir (name @ ''.png'')
      in finish (await_page env (TakeScreenshot p) st))"

text \<open>The \<^verbatim>\<open>catch\<close> block: a best-effort screenshot whose own failure is swallowed,
  then the push onto \<^verbatim>\<open>stepErrors\<close>.\<close>

definition catch_step ::
  "'b Env \<Rightarrow> string \<Rightarrow> nat \<Rightarrow> Step \<Rightarrow> js_error \<Rightarrow> 'b run_state \<Rightarrow> 'b run_state" where
  "catch_step env outDir i stp err st =
     (let shot = path_join env outDir (''error-step-'' @ decimal i @ ''.png'');
          st' = snd (await_page env (TakeScreenshot shot) st)
      in st'\<lparr>stepErrors := stepErrors st' @
              [\<lparr>index = i, step = stp, message = message_of err, screenshot = Some shot\<rparr>]\<rparr>)"

definition doStep ::
  "'b Env \<Rightarrow> string \<Rightarrow> string \<Rightarrow> nat \<Rightarrow> Step \<Rightarrow> 'b run_state \<Rightarrow> 'b run_state" where
  "doStep env baseUrl outDir i stp st =
     (case step_action env baseUrl outDir i stp st of
        (Inr _, st') \<Rightarrow> st'
      | (Inl err, st') \<Rightarrow> catch_step env outDir i stp err st')"

text \<open>\<^verbatim>\<open>for (let i = 0; i < test.steps.length; i++) await doStep(i + 1, test.steps[i])\<close>;
  the list argument holds the steps from position \<open>i\<close> on.\<close>

fun execute_steps ::
  "'b Env \<Rightarrow> string \<Rightarrow> string \<Rightarrow> nat \<Rightarrow> Step list \<Rightarrow> 'b run_state \<Rightarrow> 'b run_state" where
  "execute_steps env baseUrl outDir i [] st = st"
| "execute_steps env baseUrl outDir i (stp # rest) st =
     execute_steps env baseUrl outDir (i + 1) rest (doStep env baseUrl outDir (i + 1) stp st)"

section \<open>Tolerance evaluation and verdict (runner.ts, lines 149 to 199)\<close>

definition allowByStatus :: "Tolerate \<Rightarrow> http_error \<Rightarrow> bool" where
  "allowByStatus tol h =
     (case httpStatusAllowlist tol of None \<Rightarrow> False | Some xs \<Rightarrow> status h \<in> set xs)"

definition filteredHttpErrors ::
  "'re RegExp_engine \<Rightarrow> Tolerate \<Rightarrow> http_error list \<Rightarrow> js_error + http_error list" where
  "filteredHttpErrors eng tol hs =
     filter_js (\<lambda>h.
       case matchesAnyPattern eng (url h) (httpUrlAllowlist tol) of
         Inl e \<Rightarrow> Inl e
       | Inr allowByUrl \<Rightarrow> Inr (\<not> (allowByStatus tol h \<or> allowByUrl))) hs"

definition filteredConsoleErrors ::
  "'re RegExp_engine \<Rightarrow> Tolerate \<Rightarrow> console_error list \<Rightarrow> js_error + console_error list" where
  "filteredConsoleErrors eng tol cs =
     filter_js (\<lambda>c.
       case matchesAnyPattern eng (ce_text c) (consolePatternAllowlist tol) of
         Inl e \<Rightarrow> Inl e
       | Inr m \<Rightarrow> Inr (\<not> m)) cs"

text \<open>\<^verbatim>\<open>pageErrors.slice()\<close> and \<^verbatim>\<open>requestFailures.slice()\<close>: plain copies.\<close>

definition filteredPageErrors :: "string list \<Rightarrow> string list" where
  "filteredPageErrors ps = ps"

definition filteredRequestFailures :: "request_failure list \<Rightarrow> request_failure list" where
  "filteredRequestFailures rs = rs"

definition pageOk :: "Argv \<Rightarrow> Tolerate \<Rightarrow> string list \<Rightarrow> bool" where
  "pageOk argv tol fpe = (ignorePageErrors argv \<or> truthy (tol_pageErrors tol) \<or> length fpe = 0)"

definition consoleOk :: "Argv \<Rightarrow> Tolerate \<Rightarrow> console_error list \<Rightarrow> bool" where
  "consoleOk argv tol fce =
     (ignoreConsoleErrors argv \<or> truthy (tol_consoleErrors tol) \<or> length fce = 0)"

definition httpOk :: "Argv \<Rightarrow> Tolerate \<Rightarrow> http_error list \<Rightarrow> bool" where
  "httpOk argv tol fhe = (ignoreHttpErrors argv \<or> truthy (tol_httpErrors tol) \<or> length fhe = 0)"

definition reqOk :: "Argv \<Rightarrow> Tolerate \<Rightarrow> request_failure list \<Rightarrow> bool" where
  "reqOk argv tol frf =
     (ignoreRequestFailures argv \<or> truthy (tol_requestFailures tol) \<or> length frf = 0)"

text \<open>From the filters to the \<^verbatim>\<open>summary\<close> object; \<open>tol\<close> is the \<^verbatim>\<open>tolerate\<close> constant of
  the run and \<open>st\<close> holds its five arrays after the browser was closed.\<close>

definition summarize ::
  "'re RegExp_engine \<Rightarrow> 'b Env \<Rightarrow> Argv \<Rightarrow> TestDef \<Rightarrow> string \<Rightarrow> Tolerate \<Rightarrow> 'b run_state
     \<Rightarrow> js_error + Summary" where
  "summarize eng env argv test baseUrl tol st =
     (case filteredHttpErrors eng tol (httpErrors st) of
        Inl e \<Rightarrow> Inl e
      | Inr fhe \<Rightarrow>
     (case filteredConsoleErrors eng tol (consoleErrors st) of
        Inl e \<Rightarrow> Inl e
      | Inr fce \<Rightarrow>
          let fpe = filteredPageErrors (pageErrors st);
              frf = filteredRequestFailures (requestFailures st);
              ok = (length (stepErrors st) = 0 \<and> pageOk argv tol fpe \<and> consoleOk argv tol fce
                    \<and> httpOk argv tol fhe \<and> reqOk argv tol frf)
          in Inr \<lparr>testName = name test,
                  sum_description = description test,
                  sum_baseUrl = baseUrl,
                  timestamp = timestamp_iso env,
                  success = ok,
                  counts = \<lparr>count_stepErrors = length (stepErrors st),
                            count_pageErrors = length fpe,
                            count_consoleErrors = length fce,
                            count_httpErrors = length fhe,
                            count_requestFailures = length frf\<rparr>,
                  sum_stepErrors = stepErrors st,
                  sum_pageErrors = fpe,
                  sum_consoleErrors = fce,
                  sum_httpErrors = fhe,
                  sum_requestFailures = frf\<rparr>))"

section \<open>The run and the exit status of the process (runner.ts, run and its caller)\<close>

definition init_state :: "'b \<Rightarrow> 'b run_state" where
  "init_state b =
     \<lparr>browser = b, consoleErrors = [], pageErrors = [], requestFailures = [],
      httpErrors = [], stepErrors = []\<rparr>"

definition no_baseUrl :: js_error where
  "no_baseUrl = Error ''No baseUrl provided. Pass --baseUrl or set baseUrl in the YAML test.''"

text \<open>\<open>parsed\<close> is the outcome of reading, parsing and validating the test file.\<close>

definition run ::
  "'re RegExp_engine \<Rightarrow> 'b Env \<Rightarrow> Argv \<Rightarrow> js_error + TestDef \<Rightarrow> js_error + Summary" where
  "run eng env argv parsed =
     (case parsed of
        Inl e \<Rightarrow> Inl e
      | Inr test \<Rightarrow>
          let baseUrl = (case argv_baseUrl argv of Some u \<Rightarrow> Some u | None \<Rightarrow> test_baseUrl test);
              tol = tolerate_of test
          in if \<not> truthy_str baseUrl then Inl no_baseUrl
             else
               let base = (case baseUrl of None \<Rightarrow> [] | Some u \<Rightarrow> u);
                   stamp = map (\<lambda>c. if c = CHR '':'' \<or> c = CHR ''.'' then CHR ''-'' else c)
                             (stamp_iso env);
                   testSlug = slugify env (name test);
                   outDir = path_join env (argv_outDir argv) (testSlug @ ''-'' @ stamp)
               in (case ensureDir env outDir of
                     Inl e \<Rightarrow> Inl e
                   | Inr _ \<Rightarrow>
                  (case launch env of
                     Inl e \<Rightarrow> Inl e
                   | Inr b0 \<Rightarrow>
                       let st = execute_steps env base outDir 0 (steps test) (init_state b0)
                       in (case browser_close env (browser st) of
                             (Inl e, evs) \<Rightarrow> Inl e
                           | (Inr _, evs) \<Rightarrow>
                          (case summarize eng env argv test base tol (fold on_event evs st) of
                             Inl e \<Rightarrow> Inl e
                           | Inr summary \<Rightarrow>
                          (case write_reports env outDir summary of
                             Inl e \<Rightarrow> Inl e
                           | Inr _ \<Rightarrow> Inr summary))))))"

text \<open>\<^verbatim>\<open>run().catch((e) => { console.error(e); process.exit(1); })\<close>: a rejected run
  exits with status 1; a run that resolves sets no status, and the process ends with 0.\<close>

definition exit_status :: "js_error + Summary \<Rightarrow> nat" where
  "exit_status r = (case r of Inl e \<Rightarrow> 1 | Inr s \<Rightarrow> 0)"

section \<open>Notions used to state the properties\<close>

text \<open>An absent allowlist holds no entry.\<close>

definition the_list :: "'a list option \<Rightarrow> 'a list" where
  "the_list xs = (case xs of None \<Rightarrow> [] | Some ys \<Rightarrow> ys)"

text \<open>The regex-or-substring rule for one allowlist entry: the entry is tried as a
  case-insensitive regular expression; if it does not compile, the test is whether the
  text contains the entry literally.\<close>

definition allowlist_match :: "'re RegExp_engine \<Rightarrow> string \<Rightarrow> string \<Rightarrow> bool" where
  "allowlist_match eng text p =
     (case new_RegExp eng p ''i'' of
        Inr re \<Rightarrow> regexp_test eng re text
      | Inl e \<Rightarrow> str_includes text p)"

text \<open>An httpError that the tolerance suppresses.\<close>

definition suppressed_http :: "'re RegExp_engine \<Rightarrow> Tolerate \<Rightarrow> http_error \<Rightarrow> bool" where
  "suppressed_http eng tol h =
     (status h \<in> set (the_list (httpStatusAllowlist tol)) \<or>
      list_ex (allowlist_match eng (url h)) (the_list (httpUrlAllowlist tol)))"

text \<open>\<open>more_tolerant C C'\<close>: \<open>C'\<close> is \<open>C\<close> with further toggles set to true and further
  entries in the allowlists.\<close>

definition more_tolerant :: "Tolerate \<Rightarrow> Tolerate \<Rightarrow> bool" where
  "more_tolerant C C' =
     ((truthy (tol_httpErrors C) \<longrightarrow> truthy (tol_httpErrors C')) \<and>
      (truthy (tol_consoleErrors C) \<longrightarrow> truthy (tol_consoleErrors C')) \<and>
      (truthy (tol_pageErrors C) \<longrightarrow> truthy (tol_pageErrors C')) \<and>
      (truthy (tol_requestFailures C) \<longrightarrow> truthy (tol_requestFailures C')) \<and>
      set (the_list (httpStatusAllowlist C)) \<subseteq> set (the_list (httpStatusAllowlist C')) \<and>
      set (the_list (httpUrlAllowlist C)) \<subseteq> set (the_list (httpUrlAllowlist C')) \<and>
      set (the_list (consolePatternAllowlist C)) \<subseteq> set (the_list (consolePatternAllowlist C')))"

text \<open>The state in which the step at 0-based position \<open>k\<close> starts, and what its action
  does there: \<open>Some m\<close> when it raises with message \<open>m\<close>.\<close>

definition state_before ::
  "'b Env \<Rightarrow> string \<Rightarrow> string \<Rightarrow> Step list \<Rightarrow> 'b run_state \<Rightarrow> nat \<Rightarrow> 'b run_state" where
  "state_before env baseUrl outDir stps st k = execute_steps env baseUrl outDir 0 (take k stps) st"

definition raised ::
  "'b Env \<Rightarrow> string \<Rightarrow> string \<Rightarrow> Step list \<Rightarrow> 'b run_state \<Rightarrow> nat \<Rightarrow> string option" where
  "raised env baseUrl outDir stps st k =
     (case fst (step_action env baseUrl outDir (k + 1) (stps ! k)
                  (state_before env baseUrl outDir stps st k)) of
        Inl e \<Rightarrow> Some (message_of e)
      | Inr _ \<Rightarrow> None)"

definition error_shot :: "'b Env \<Rightarrow> string \<Rightarrow> nat \<Rightarrow> string" where
  "error_shot env outDir i = path_join env outDir (''error-step-'' @ decimal i @ ''.png'')"

definition entries_of ::
  "'b Env \<Rightarrow> string \<Rightarrow> string \<Rightarrow> Step list \<Rightarrow> 'b run_state \<Rightarrow> nat \<Rightarrow> step_error list" where
  "entries_of env baseUrl outDir stps st k =
     (case raised env baseUrl outDir stps st k of
        None \<Rightarrow> []
      | Some m \<Rightarrow> [\<lparr>index = k + 1, step = stps ! k, message = m,
                    screenshot = Some (error_shot env outDir (k + 1))\<rparr>])"

text \<open>The verdict a run ends with, if it ends with a summary.\<close>

definition verdict :: "js_error + Summary \<Rightarrow> bool option" where
  "verdict r = (case r of Inl e \<Rightarrow> None | Inr s \<Rightarrow> Some (success s))"

text \<open>The step errors that a run reports in its summary.\<close>

definition reported_errors :: "js_error + Summary \<Rightarrow> step_error list" where
  "reported_errors r = (case r of Inl e \<Rightarrow> [] | Inr s \<Rightarrow> sum_stepErrors s)"

section \<open>A small session for concrete evaluations\<close>

text \<open>
  A page whose state counts the calls made.  Clicking or waiting for the selector
  \<open>#missing\<close> times out; a screenshot is written or fails as the flag says; a click on
  \<open>#submit\<close> is answered with status 401 and an error on the console.
\<close>

definition sample_page ::
  "bool \<Rightarrow> page_call \<Rightarrow> nat \<Rightarrow> (js_error + string option) \<times> page_event list \<times> nat" where
  "sample_page shots_ok c b =
     (case c of
        Goto u \<Rightarrow> (Inr None, [Response u 200 ''OK''], b + 1)
      | ClickSel sel \<Rightarrow>
          if sel = ''#missing'' then (Inl (Error ''Timeout 30000ms exceeded.''), [], b + 1)
          else if sel = ''#submit''
          then (Inr None,
                [Response ''http://localhost:3000/api/login'' 401 ''Unauthorized'',
                 ConsoleMsg ''error'' ''Invalid login: bad password'' (''app.js'', 10, 2)],
                b + 1)
          else (Inr None, [], b + 1)
      | WaitForSel sel s t \<Rightarrow>
          if sel = ''#missing'' then (Inl (Error ''Timeout 10000ms exceeded.''), [], b + 1)
          else (Inr None, [], b + 1)
      | TextContent sel \<Rightarrow> (Inr (Some ''Welcome back''), [], b + 1)
      | TakeScreenshot p \<Rightarrow>
          if shots_ok then (Inr None, [], b + 1)
          else (Inl (Error ''page.screenshot: Target closed''), [], b + 1)
      | _ \<Rightarrow> (Inr None, [], b + 1))"

definition sample_env :: "bool \<Rightarrow> nat Env" where
  "sample_env shots_ok =
     \<lparr>page = sample_page shots_ok,
      launch = Inr 0,
      browser_close = (\<lambda>b. (Inr (), [])),
      path_join = (\<lambda>a b. a @ ''/'' @ b),
      new_URL = (\<lambda>p base. Inr (base @ p)),
      toLowerCase = (\<lambda>s. s),
      ensureDir = (\<lambda>d. Inr ()),
      stamp_iso = ''2026-01-01T00:00:00.000Z'',
      timestamp_iso = ''2026-01-01T00:00:05.000Z'',
      write_reports = (\<lambda>d s. Inr ())\<rparr>"

text \<open>An engine that rejects the pattern \<open>[\<close> (an unterminated character class) and
  matches any other pattern as a literal.\<close>

definition sample_engine :: "string RegExp_engine" where
  "sample_engine =
     \<lparr>new_RegExp = (\<lambda>p flags. if p = ''['' then Inl (Error ''Invalid regular expression'')
                               else Inr p),
      regexp_test = (\<lambda>re text. sublist re text)\<rparr>"

definition sample_argv :: Argv where
  "sample_argv =
     \<lparr>argv_baseUrl = Some ''http://localhost:3000'', argv_outDir = ''reports'',
      ignoreHttpErrors = False, ignoreConsoleErrors = False, ignorePageErrors = False,
      ignoreRequestFailures = False\<rparr>"

definition sample_test :: "Step list \<Rightarrow> Tolerate option \<Rightarrow> TestDef" where
  "sample_test stps tol =
     \<lparr>name = ''login'', description = None, test_baseUrl = None, steps = stps, tolerate = tol\<rparr>"

definition five_steps :: "Step list" where
  "five_steps =
     [Navigate None (Some ''/login''), Fill ''#email'' ''user@example.com'',
      WaitForSelector ''#missing'' None None, Click ''#go'', Wait 5]"

text \<open>A state of the five arrays after a run: one console error, one page error and one
  response with status 401, no failed step.\<close>

definition sample_state :: "nat run_state" where
  "sample_state =
     \<lparr>browser = 1,
      consoleErrors = [\<lparr>ce_type = ''error'', ce_text = ''Invalid login: bad password'',
                        ce_location = (''app.js'', 10, 2)\<rparr>],
      pageErrors = [''TypeError: x is undefined''],
      requestFailures = [],
      httpErrors = [\<lparr>url = ''http://localhost:3000/api/login'', status = 401,
                     statusText = ''Unauthorized''\<rparr>],
      stepErrors = []\<rparr>"

text \<open>Three tolerance policies, each more tolerant than the one before.\<close>

definition strict_tolerate :: Tolerate where
  "strict_tolerate = empty_tolerate\<lparr>tol_pageErrors := Some True\<rparr>"

definition lenient_tolerate :: Tolerate where
  "lenient_tolerate =
     empty_tolerate\<lparr>tol_pageErrors := Some True, httpStatusAllowlist := Some [401],
                     consolePatternAllowlist := Some [''Invalid login'']\<rparr>"

definition lenient_http_tolerate :: Tolerate where
  "lenient_http_tolerate = lenient_tolerate\<lparr>tol_httpErrors := Some True\<rparr>"

section \<open>Allowlist matching and filtering never raise\<close>

lemma some_js_pure:
  "(\<And>x. x \<in> set xs \<Longrightarrow> f x = Inr (g x)) \<Longrightarrow> some_js f xs = Inr (list_ex g xs)"
  by (induction xs) auto

lemma filter_js_pure:
  "(\<And>x. x \<in> set xs \<Longrightarrow> f x = Inr (g x)) \<Longrightarrow> filter_js f xs = Inr (filter g xs)"
  by (induction xs) auto

lemma pattern_callback:
  "try_catch
     (case new_RegExp eng p ''i'' of
        Inl e \<Rightarrow> Inl e
      | Inr re \<Rightarrow> Inr (regexp_test eng re text))
     (\<lambda>e. Inr (str_includes text p)) = Inr (allowlist_match eng text p)"
  by (simp add: try_catch_def allowlist_match_def split: sum.splits)

lemma matchesAnyPattern_pure:
  "matchesAnyPattern eng text pats = Inr (list_ex (allowlist_match eng text) (the_list pats))"
proof (cases pats)
  case None
  then show ?thesis by (simp add: matchesAnyPattern_def the_list_def)
next
  case (Some ps)
  have "some_js (\<lambda>p. try_catch
           (case new_RegExp eng p ''i'' of
              Inl e \<Rightarrow> Inl e
            | Inr re \<Rightarrow> Inr (regexp_test eng re text))
           (\<lambda>e. Inr (str_includes text p))) ps
        = Inr (list_ex (allowlist_match eng text) ps)"
    by (rule some_js_pure) (rule pattern_callback)
  with Some show ?thesis
    by (cases ps) (simp_all add: matchesAnyPattern_def the_list_def)
qed

lemma allowByStatus_iff: "allowByStatus tol h = (status h \<in> set (the_list (httpStatusAllowlist tol)))"
  by (simp add: allowByStatus_def the_list_def split: option.splits)

lemma filteredHttpErrors_pure:
  "filteredHttpErrors eng tol hs = Inr (filter (\<lambda>h. \<not> suppressed_http eng tol h) hs)"
  unfolding filteredHttpErrors_def
  by (rule filter_js_pure) (simp add: matchesAnyPattern_pure suppressed_http_def allowByStatus_iff)

lemma filteredConsoleErrors_pure:
  "filteredConsoleErrors eng tol cs =
     Inr (filter (\<lambda>c. \<not> list_ex (allowlist_match eng (ce_text c)) (the_list (consolePatternAllowlist tol))) cs)"
  unfolding filteredConsoleErrors_def
  by (rule filter_js_pure) (simp add: matchesAnyPattern_pure)

lemma summarize_success:
  "\<exists>s. summarize eng env argv test base tol st = Inr s \<and>
       success s =
         (length (stepErrors st) = 0 \<and>
          pageOk argv tol (filteredPageErrors (pageErrors st)) \<and>
          consoleOk argv tol (filter (\<lambda>c. \<not> list_ex (allowlist_match eng (ce_text c)) (the_list (consolePatternAllowlist tol))) (consoleErrors st)) \<and>
          httpOk argv tol (filter (\<lambda>h. \<not> suppressed_http eng tol h) (httpErrors st)) \<and>
          reqOk argv tol (filteredRequestFailures (requestFailures st)))"
  by (simp add: summarize_def filteredHttpErrors_pure filteredConsoleErrors_pure Let_def)

text \<open>
  Claim C4.  For every text and every allowlist, \<open>matchesAnyPattern\<close> returns and never
  raises: its result is whether some entry matches under the regex-or-substring rule,
  where an entry that does not compile as a regular expression is tested as a literal
  substring.  When the engine rejects the pattern \<open>[\<close>, an allowlist holding just that
  entry matches exactly the texts that contain \<open>[\<close>, and as \<open>httpUrlAllowlist\<close> it removes
  an httpError exactly when its URL contains \<open>[\<close>.
\<close>

theorem matchesAnyPattern_total:
  "matchesAnyPattern eng text pats = Inr (list_ex (allowlist_match eng text) (the_list pats)) \<and>
   (new_RegExp eng ''['' ''i'' = Inl e \<longrightarrow>
      matchesAnyPattern eng text (Some [''['']) = Inr (str_includes text ''['') \<and>
      filteredHttpErrors eng (empty_tolerate\<lparr>httpUrlAllowlist := Some [''['']\<rparr>) [h]
        = Inr (if str_includes (url h) ''['' then [] else [h]))"
proof (intro conjI impI)
  show "matchesAnyPattern eng text pats = Inr (list_ex (allowlist_match eng text) (the_list pats))"
    by (rule matchesAnyPattern_pure)
next
  assume bad: "new_RegExp eng ''['' ''i'' = Inl e"
  then have m: "\<And>t. allowlist_match eng t ''['' = str_includes t ''[''"
    by (simp add: allowlist_match_def)
  show "matchesAnyPattern eng text (Some [''['']) = Inr (str_includes text ''['')"
    by (simp add: matchesAnyPattern_pure the_list_def m)
  show "filteredHttpErrors eng (empty_tolerate\<lparr>httpUrlAllowlist := Some [''['']\<rparr>) [h]
        = Inr (if str_includes (url h) ''['' then [] else [h])"
    by (simp add: filteredHttpErrors_pure suppressed_http_def the_list_def m empty_tolerate_def)
qed

theorem matchesAnyPattern_total_witness:
  "new_RegExp sample_engine ''['' ''i'' = Inl (Error ''Invalid regular expression'') \<and>
   matchesAnyPattern sample_engine ''/api/login'' (Some [''['', ''api'']) = Inr True \<and>
   matchesAnyPattern sample_engine ''/api/login'' (Some [''['']) = Inr False \<and>
   matchesAnyPattern sample_engine ''/api/a[0]'' (Some [''['']) = Inr True \<and>
   filteredHttpErrors sample_engine (empty_tolerate\<lparr>httpUrlAllowlist := Some [''['']\<rparr>)
     [\<lparr>url = ''/api/login'', status = 500, statusText = ''Internal Server Error''\<rparr>]
     = Inr [\<lparr>url = ''/api/login'', status = 500, statusText = ''Internal Server Error''\<rparr>]"
  using matchesAnyPattern_total [of sample_engine "''/api/login''" "Some [''['', ''api'']"
          "Error ''Invalid regular expression''"
          "\<lparr>url = ''/api/login'', status = 500, statusText = ''Internal Server Error''\<rparr>"]
        matchesAnyPattern_total [of sample_engine "''/api/a[0]''" "Some [''['']"
          "Error ''Invalid regular expression''"
          "\<lparr>url = ''/api/login'', status = 500, statusText = ''Internal Server Error''\<rparr>"]
  by (simp add: sample_engine_def allowlist_match_def the_list_def str_includes_def
        sublist_code prefix_code)

text \<open>
  Claim C5.  The effective httpError list is the raw list without the signals whose
  status is in \<open>httpStatusAllowlist\<close> or whose URL matches some entry of
  \<open>httpUrlAllowlist\<close> under the regex-or-substring rule: a raw signal is excluded if and
  only if one of the two holds.  With \<open>httpStatusAllowlist = [401]\<close> and one raw signal
  of status 401 the effective list is empty and \<open>httpOk\<close> holds.
\<close>

theorem filteredHttpErrors_iff:
  "\<exists>fhe. filteredHttpErrors eng tol hs = Inr fhe \<and>
     fhe = filter (\<lambda>h. \<not> (status h \<in> set (the_list (httpStatusAllowlist tol)) \<or>
                         (\<exists>p \<in> set (the_list (httpUrlAllowlist tol)). allowlist_match eng (url h) p))) hs \<and>
     (\<forall>h \<in> set hs. h \<notin> set fhe \<longleftrightarrow>
        (status h \<in> set (the_list (httpStatusAllowlist tol)) \<or>
         (\<exists>p \<in> set (the_list (httpUrlAllowlist tol)). allowlist_match eng (url h) p))) \<and>
     (httpStatusAllowlist tol = Some [401] \<and> hs = [h0] \<and> status h0 = 401 \<longrightarrow>
        fhe = [] \<and> httpOk argv tol fhe)"
  by (auto simp add: filteredHttpErrors_pure suppressed_http_def list_ex_iff the_list_def httpOk_def)

theorem filteredHttpErrors_iff_witness:
  "filteredHttpErrors sample_engine (empty_tolerate\<lparr>httpStatusAllowlist := Some [401]\<rparr>)
     [\<lparr>url = ''/api/login'', status = 401, statusText = ''Unauthorized''\<rparr>] = Inr [] \<and>
   httpOk sample_argv (empty_tolerate\<lparr>httpStatusAllowlist := Some [401]\<rparr>) []"
  using filteredHttpErrors_iff [of sample_engine "empty_tolerate\<lparr>httpStatusAllowlist := Some [401]\<rparr>"
          "[\<lparr>url = ''/api/login'', status = 401, statusText = ''Unauthorized''\<rparr>]"
          "\<lparr>url = ''/api/login'', status = 401, statusText = ''Unauthorized''\<rparr>" sample_argv]
  by (simp add: empty_tolerate_def the_list_def)

text \<open>
  Claim C7.  Filtering is idempotent in each of the four categories, and each effective
  log is a subsequence of its raw log: its signals occur in the raw log in the same
  relative order.
\<close>

theorem filtering_idempotent_subseq:
  "\<exists>fhe fce.
     filteredHttpErrors eng C hs = Inr fhe \<and> filteredConsoleErrors eng C cs = Inr fce \<and>
     filteredHttpErrors eng C fhe = Inr fhe \<and> filteredConsoleErrors eng C fce = Inr fce \<and>
     filteredPageErrors (filteredPageErrors ps) = filteredPageErrors ps \<and>
     filteredRequestFailures (filteredRequestFailures rs) = filteredRequestFailures rs \<and>
     subseq fhe hs \<and> subseq fce cs \<and>
     subseq (filteredPageErrors ps) ps \<and> subseq (filteredRequestFailures rs) rs"
  by (simp add: filteredHttpErrors_pure filteredConsoleErrors_pure filteredPageErrors_def
        filteredRequestFailures_def)

theorem filtering_idempotent_subseq_witness:
  "filteredHttpErrors sample_engine lenient_tolerate
     [\<lparr>url = ''/api/login'', status = 401, statusText = ''Unauthorized''\<rparr>,
      \<lparr>url = ''/api/items'', status = 500, statusText = ''Internal Server Error''\<rparr>]
     = Inr [\<lparr>url = ''/api/items'', status = 500, statusText = ''Internal Server Error''\<rparr>] \<and>
   filteredHttpErrors sample_engine lenient_tolerate
     [\<lparr>url = ''/api/items'', status = 500, statusText = ''Internal Server Error''\<rparr>]
     = Inr [\<lparr>url = ''/api/items'', status = 500, statusText = ''Internal Server Error''\<rparr>] \<and>
   subseq [\<lparr>url = ''/api/items'', status = 500, statusText = ''Internal Server Error''\<rparr>]
     [\<lparr>url = ''/api/login'', status = 401, statusText = ''Unauthorized''\<rparr>,
      \<lparr>url = ''/api/items'', status = 500, statusText = ''Internal Server Error''\<rparr>]"
proof -
  have a: "filteredHttpErrors sample_engine lenient_tolerate
     [\<lparr>url = ''/api/login'', status = 401, statusText = ''Unauthorized''\<rparr>,
      \<lparr>url = ''/api/items'', status = 500, statusText = ''Internal Server Error''\<rparr>]
     = Inr [\<lparr>url = ''/api/items'', status = 500, statusText = ''Internal Server Error''\<rparr>]"
    by code_simp
  show ?thesis
    using a filtering_idempotent_subseq [of sample_engine lenient_tolerate
      "[\<lparr>url = ''/api/login'', status = 401, statusText = ''Unauthorized''\<rparr>,
        \<lparr>url = ''/api/items'', status = 500, statusText = ''Internal Server Error''\<rparr>]"]
    by auto
qed

text \<open>
  Claim C3.  Each of the four categories is ok exactly when its global override flag is
  set, or its tolerance toggle is true, or its effective list is empty.  With
  \<open>tolerate.pageErrors = true\<close> and one raw page error, \<open>pageOk\<close> holds whatever the
  allowlists are.
\<close>

theorem category_ok_iff:
  "(pageOk argv tol fpe \<longleftrightarrow>
      ignorePageErrors argv \<or> tol_pageErrors tol = Some True \<or> length fpe = 0) \<and>
   (consoleOk argv tol fce \<longleftrightarrow>
      ignoreConsoleErrors argv \<or> tol_consoleErrors tol = Some True \<or> length fce = 0) \<and>
   (httpOk argv tol fhe \<longleftrightarrow>
      ignoreHttpErrors argv \<or> tol_httpErrors tol = Some True \<or> length fhe = 0) \<and>
   (reqOk argv tol frf \<longleftrightarrow>
      ignoreRequestFailures argv \<or> tol_requestFailures tol = Some True \<or> length frf = 0) \<and>
   (tol_pageErrors tol = Some True \<longrightarrow> pageOk argv tol (filteredPageErrors [e]))"
  by (simp add: pageOk_def consoleOk_def httpOk_def reqOk_def truthy_def)

theorem category_ok_iff_witness:
  "tol_pageErrors strict_tolerate = Some True \<and>
   pageOk sample_argv strict_tolerate (filteredPageErrors [''TypeError: x is undefined'']) \<and>
   \<not> httpOk sample_argv strict_tolerate (httpErrors sample_state)"
  using category_ok_iff [of sample_argv strict_tolerate "[]" "[]" "httpErrors sample_state" "[]"
          "''TypeError: x is undefined''"]
  by (simp add: strict_tolerate_def empty_tolerate_def sample_argv_def sample_state_def)

text \<open>
  Claim C2.  The summary of every run is computed, and its verdict is success if and
  only if no step failed and all four categories are ok.
\<close>

theorem verdict_iff:
  "\<exists>fhe fce s.
     filteredHttpErrors eng tol (httpErrors st) = Inr fhe \<and>
     filteredConsoleErrors eng tol (consoleErrors st) = Inr fce \<and>
     summarize eng env argv test base tol st = Inr s \<and>
     count_stepErrors (counts s) = length (stepErrors st) \<and>
     (success s \<longleftrightarrow>
        length (stepErrors st) = 0 \<and>
        pageOk argv tol (filteredPageErrors (pageErrors st)) \<and>
        consoleOk argv tol fce \<and>
        httpOk argv tol fhe \<and>
        reqOk argv tol (filteredRequestFailures (requestFailures st)))"
  by (simp add: summarize_def filteredHttpErrors_pure filteredConsoleErrors_pure Let_def)

theorem verdict_iff_witness:
  "verdict (summarize sample_engine (sample_env True) sample_argv (sample_test [Click ''#submit''] None)
      ''http://localhost:3000'' strict_tolerate sample_state) = Some False \<and>
   verdict (summarize sample_engine (sample_env True) sample_argv (sample_test [Click ''#submit''] None)
      ''http://localhost:3000'' lenient_tolerate sample_state) = Some True"
proof -
  have h1: "filteredHttpErrors sample_engine strict_tolerate (httpErrors sample_state) =
      Inr [\<lparr>url = ''http://localhost:3000/api/login'', status = 401, statusText = ''Unauthorized''\<rparr>]"
    by code_simp
  have h2: "filteredHttpErrors sample_engine lenient_tolerate (httpErrors sample_state) = Inr []"
    by code_simp
  have c2: "filteredConsoleErrors sample_engine lenient_tolerate (consoleErrors sample_state) = Inr []"
    by code_simp
  have p: "stepErrors sample_state = []" "tol_pageErrors lenient_tolerate = Some True"
    "requestFailures sample_state = []"
    "\<not> ignoreHttpErrors sample_argv" "tol_httpErrors strict_tolerate = None"
    by (simp_all add: sample_state_def lenient_tolerate_def strict_tolerate_def empty_tolerate_def
          sample_argv_def)
  show ?thesis
    using verdict_iff [of sample_engine strict_tolerate sample_state "sample_env True" sample_argv
            "sample_test [Click ''#submit''] None" "''http://localhost:3000''"]
          verdict_iff [of sample_engine lenient_tolerate sample_state "sample_env True" sample_argv
            "sample_test [Click ''#submit''] None" "''http://localhost:3000''"]
          h1 h2 c2 p
    by (auto simp: verdict_def pageOk_def consoleOk_def httpOk_def reqOk_def truthy_def
          filteredRequestFailures_def)
qed

text \<open>Each single enlargement of a tolerance gives a more tolerant one, and so does any
  sequence of them.\<close>

lemma more_tolerant_refl: "more_tolerant C C"
  by (simp add: more_tolerant_def)

lemma more_tolerant_trans:
  "more_tolerant C C' \<Longrightarrow> more_tolerant C' C'' \<Longrightarrow> more_tolerant C C''"
  by (auto simp: more_tolerant_def)

lemma more_tolerant_enlarge:
  "more_tolerant C (C\<lparr>tol_httpErrors := Some True\<rparr>)"
  "more_tolerant C (C\<lparr>tol_consoleErrors := Some True\<rparr>)"
  "more_tolerant C (C\<lparr>tol_pageErrors := Some True\<rparr>)"
  "more_tolerant C (C\<lparr>tol_requestFailures := Some True\<rparr>)"
  "more_tolerant C (C\<lparr>httpStatusAllowlist := Some (the_list (httpStatusAllowlist C) @ [n])\<rparr>)"
  "more_tolerant C (C\<lparr>httpUrlAllowlist := Some (the_list (httpUrlAllowlist C) @ [p])\<rparr>)"
  "more_tolerant C (C\<lparr>consolePatternAllowlist := Some (the_list (consolePatternAllowlist C) @ [p])\<rparr>)"
  by (auto simp: more_tolerant_def the_list_def truthy_def split: option.splits)

text \<open>
  Claim C6.  Verdict monotonicity: for fixed step errors and raw signals, a tolerance
  with further toggles set to true or further allowlist entries never turns a success
  into a failure.
\<close>

theorem verdict_monotone:
  assumes "more_tolerant C C'"
  shows "\<exists>s s'. summarize eng env argv test base C st = Inr s \<and>
                summarize eng env argv test base C' st = Inr s' \<and>
                (success s \<longrightarrow> success s')"
proof -
  obtain s where s: "summarize eng env argv test base C st = Inr s"
    and ss: "success s =
         (length (stepErrors st) = 0 \<and>
          pageOk argv C (filteredPageErrors (pageErrors st)) \<and>
          consoleOk argv C (filter (\<lambda>c. \<not> list_ex (allowlist_match eng (ce_text c)) (the_list (consolePatternAllowlist C))) (consoleErrors st)) \<and>
          httpOk argv C (filter (\<lambda>h. \<not> suppressed_http eng C h) (httpErrors st)) \<and>
          reqOk argv C (filteredRequestFailures (requestFailures st)))"
    using summarize_success [of eng env argv test base C st] by blast
  obtain s' where s': "summarize eng env argv test base C' st = Inr s'"
    and ss': "success s' =
         (length (stepErrors st) = 0 \<and>
          pageOk argv C' (filteredPageErrors (pageErrors st)) \<and>
          consoleOk argv C' (filter (\<lambda>c. \<not> list_ex (allowlist_match eng (ce_text c)) (the_list (consolePatternAllowlist C'))) (consoleErrors st)) \<and>
          httpOk argv C' (filter (\<lambda>h. \<not> suppressed_http eng C' h) (httpErrors st)) \<and>
          reqOk argv C' (filteredRequestFailures (requestFailures st)))"
    using summarize_success [of eng env argv test base C' st] by blast
  have page: "pageOk argv C xs \<Longrightarrow> pageOk argv C' xs" for xs
    using assms by (auto simp: pageOk_def more_tolerant_def)
  have req: "reqOk argv C xs \<Longrightarrow> reqOk argv C' xs" for xs
    using assms by (auto simp: reqOk_def more_tolerant_def)
  have sup: "suppressed_http eng C h \<Longrightarrow> suppressed_http eng C' h" for h
    using assms by (auto simp: suppressed_http_def more_tolerant_def list_ex_iff)
  have con: "list_ex (allowlist_match eng t) (the_list (consolePatternAllowlist C))
      \<Longrightarrow> list_ex (allowlist_match eng t) (the_list (consolePatternAllowlist C'))" for t
    using assms by (auto simp: more_tolerant_def list_ex_iff)
  have http: "httpOk argv C (filter (\<lambda>h. \<not> suppressed_http eng C h) hs)
      \<Longrightarrow> httpOk argv C' (filter (\<lambda>h. \<not> suppressed_http eng C' h) hs)" for hs
    using assms sup by (auto simp: httpOk_def more_tolerant_def filter_empty_conv)
  have console: "consoleOk argv C (filter (\<lambda>c. \<not> list_ex (allowlist_match eng (ce_text c)) (the_list (consolePatternAllowlist C))) cs)
      \<Longrightarrow> consoleOk argv C' (filter (\<lambda>c. \<not> list_ex (allowlist_match eng (ce_text c)) (the_list (consolePatternAllowlist C'))) cs)" for cs
    using assms con by (auto simp: consoleOk_def more_tolerant_def filter_empty_conv)
  have "success s \<longrightarrow> success s'"
    unfolding ss ss' using page req http console by blast
  with s s' show ?thesis by blast
qed

theorem verdict_monotone_witness:
  "more_tolerant lenient_tolerate lenient_http_tolerate \<and>
   verdict (summarize sample_engine (sample_env True) sample_argv (sample_test [Click ''#submit''] None)
      ''http://localhost:3000'' lenient_tolerate sample_state) = Some True \<and>
   verdict (summarize sample_engine (sample_env True) sample_argv (sample_test [Click ''#submit''] None)
      ''http://localhost:3000'' lenient_http_tolerate sample_state) = Some True"
proof -
  have m: "more_tolerant lenient_tolerate lenient_http_tolerate"
    by (simp add: more_tolerant_def lenient_http_tolerate_def lenient_tolerate_def
          empty_tolerate_def truthy_def)
  have v: "verdict (summarize sample_engine (sample_env True) sample_argv
      (sample_test [Click ''#submit''] None) ''http://localhost:3000'' lenient_tolerate sample_state)
      = Some True"
    by code_simp
  show ?thesis
    using m v verdict_monotone [OF m, of sample_engine "sample_env True" sample_argv
            "sample_test [Click ''#submit''] None" "''http://localhost:3000''" sample_state]
    by (auto simp: verdict_def)
qed

section \<open>The step loop and its step errors\<close>

lemma on_event_stepErrors: "stepErrors (on_event ev st) = stepErrors st"
  by (cases ev) simp_all

lemma fold_on_event_stepErrors: "stepErrors (fold on_event evs st) = stepErrors st"
  by (induction evs arbitrary: st) (simp_all add: on_event_stepErrors)

lemma await_page_stepErrors: "stepErrors (snd (await_page env c st)) = stepErrors st"
  by (simp add: await_page_def fold_on_event_stepErrors split: prod.splits)

lemma finish_await_stepErrors: "stepErrors (snd (finish (await_page env c st))) = stepErrors st"
  using await_page_stepErrors [of env c st]
  by (cases "await_page env c st") (auto simp: finish_def and_then_def split: sum.splits)

lemma and_then_await_keeps:
  assumes "stepErrors st = es"
    and "\<And>v s. stepErrors s = es \<Longrightarrow> stepErrors (snd (k v s)) = es"
  shows "stepErrors (snd (and_then (await_page env c st) k)) = es"
  using await_page_stepErrors [of env c st] assms
  by (cases "await_page env c st") (auto simp: and_then_def split: sum.splits)

lemma step_action_stepErrors:
  "stepErrors (snd (step_action env base out i stp st)) = stepErrors st"
proof (cases stp)
  case (Type sel tx pressEnter)
  show ?thesis
    unfolding Type step_action.simps
    apply (rule and_then_await_keeps [OF refl])
    apply (rule and_then_await_keeps, assumption)
    apply (simp add: finish_await_stepErrors)
    done
next
  case (ExpectText sel tx timeoutMs)
  show ?thesis
    unfolding ExpectText step_action.simps
    apply (rule and_then_await_keeps [OF refl])
    apply (rule and_then_await_keeps, assumption)
    apply simp
    done
qed (simp_all add: finish_await_stepErrors Let_def)

lemma catch_step_stepErrors:
  "stepErrors (catch_step env out i stp err st) =
     stepErrors st @ [\<lparr>index = i, step = stp, message = message_of err,
                       screenshot = Some (error_shot env out i)\<rparr>]"
  by (simp add: catch_step_def Let_def await_page_stepErrors error_shot_def)

lemma doStep_stepErrors:
  "stepErrors (doStep env base out i stp st) =
     stepErrors st @
     (case fst (step_action env base out i stp st) of
        Inl err \<Rightarrow> [\<lparr>index = i, step = stp, message = message_of err,
                      screenshot = Some (error_shot env out i)\<rparr>]
      | Inr _ \<Rightarrow> [])"
  using step_action_stepErrors [of env base out i stp st]
  by (cases "step_action env base out i stp st")
     (auto simp: doStep_def catch_step_stepErrors split: sum.splits)

lemma execute_steps_append:
  "execute_steps env base out i (xs @ ys) st =
     execute_steps env base out (i + length xs) ys (execute_steps env base out i xs st)"
  by (induction xs arbitrary: i st) simp_all

lemma execute_steps_grows:
  "\<exists>es. stepErrors (execute_steps env base out i stps st) = stepErrors st @ es"
proof (induction stps arbitrary: i st)
  case Nil
  show ?case by simp
next
  case (Cons stp rest)
  obtain es where "stepErrors (execute_steps env base out (i + 1) rest (doStep env base out (i + 1) stp st))
      = stepErrors (doStep env base out (i + 1) stp st) @ es"
    using Cons.IH by blast
  then show ?case by (simp add: doStep_stepErrors)
qed

lemma entries_of_snoc_last:
  "entries_of env base out (xs @ [x]) st (length xs) =
     (case fst (step_action env base out (length xs + 1) x (execute_steps env base out 0 xs st)) of
        Inl err \<Rightarrow> [\<lparr>index = length xs + 1, step = x, message = message_of err,
                      screenshot = Some (error_shot env out (length xs + 1))\<rparr>]
      | Inr _ \<Rightarrow> [])"
  by (simp add: entries_of_def raised_def state_before_def split: sum.splits)

lemma entries_of_snoc_before:
  "k < length xs \<Longrightarrow> entries_of env base out (xs @ [x]) st k = entries_of env base out xs st k"
  by (simp add: entries_of_def raised_def state_before_def nth_append
        split: sum.splits option.splits)

lemma stepErrors_execute_steps:
  "stepErrors (execute_steps env base out 0 stps st) =
     stepErrors st @ concat (map (entries_of env base out stps st) [0..<length stps])"
proof (induction stps rule: rev_induct)
  case Nil
  show ?case by simp
next
  case (snoc x xs)
  have m: "map (entries_of env base out (xs @ [x]) st) [0..<length xs] =
        map (entries_of env base out xs st) [0..<length xs]"
    by (rule map_cong) (simp_all add: entries_of_snoc_before)
  show ?case
    by (simp add: execute_steps_append doStep_stepErrors snoc.IH entries_of_snoc_last m
          split: sum.splits)
qed

lemma length_entries_of: "length (entries_of env base out stps st k) \<le> 1"
  by (simp add: entries_of_def split: option.splits)

lemma length_concat_entries:
  "length (concat (map (entries_of env base out stps st) ks)) \<le> length ks"
proof (induction ks)
  case Nil
  show ?case by simp
next
  case (Cons k ks)
  then show ?case using length_entries_of [of env base out stps st k] by simp
qed

text \<open>
  Claim C1, as the code has it.  The step loop attempts every step in order and records
  a step error only for a step whose action raises: the list of step errors is, in step
  order, one entry for each position \<open>k\<close> (0-based) whose action raised, carrying the step
  number \<open>k + 1\<close>, the step, the failure message and the path of the failure screenshot,
  and nothing for a step that succeeded.  Its length is the number of raising steps,
  at most the number of steps.  Whatever the first \<open>k\<close> steps did, the run goes on with
  the remaining ones from the state they left.
\<close>

theorem step_errors_of_run:
  "stepErrors (execute_steps env base out 0 stps (init_state b)) =
     concat (map (entries_of env base out stps (init_state b)) [0..<length stps]) \<and>
   length (stepErrors (execute_steps env base out 0 stps (init_state b))) \<le> length stps \<and>
   (\<forall>k < length stps.
      entries_of env base out stps (init_state b) k =
        (case fst (step_action env base out (k + 1) (stps ! k)
                     (execute_steps env base out 0 (take k stps) (init_state b))) of
           Inl err \<Rightarrow> [\<lparr>index = k + 1, step = stps ! k, message = message_of err,
                         screenshot = Some (error_shot env out (k + 1))\<rparr>]
         | Inr _ \<Rightarrow> [])) \<and>
   (\<forall>k \<le> length stps.
      execute_steps env base out 0 stps (init_state b) =
        execute_steps env base out k (drop k stps)
          (execute_steps env base out 0 (take k stps) (init_state b)))"
proof (intro conjI allI impI)
  show eq: "stepErrors (execute_steps env base out 0 stps (init_state b)) =
     concat (map (entries_of env base out stps (init_state b)) [0..<length stps])"
    using stepErrors_execute_steps [of env base out stps "init_state b"]
    by (simp add: init_state_def)
  show "length (stepErrors (execute_steps env base out 0 stps (init_state b))) \<le> length stps"
    unfolding eq using length_concat_entries [of env base out stps "init_state b" "[0..<length stps]"]
    by simp
next
  fix k assume "k < length stps"
  show "entries_of env base out stps (init_state b) k =
        (case fst (step_action env base out (k + 1) (stps ! k)
                     (execute_steps env base out 0 (take k stps) (init_state b))) of
           Inl err \<Rightarrow> [\<lparr>index = k + 1, step = stps ! k, message = message_of err,
                         screenshot = Some (error_shot env out (k + 1))\<rparr>]
         | Inr _ \<Rightarrow> [])"
    by (simp add: entries_of_def raised_def state_before_def split: sum.splits)
next
  fix k assume "k \<le> length stps"
  then show "execute_steps env base out 0 stps (init_state b) =
        execute_steps env base out k (drop k stps)
          (execute_steps env base out 0 (take k stps) (init_state b))"
    using execute_steps_append [of env base out 0 "take k stps" "drop k stps" "init_state b"]
    by simp
qed

theorem step_errors_of_run_witness:
  "(2::nat) < length five_steps \<and>
   entries_of (sample_env True) ''http://localhost:3000'' ''reports/x'' five_steps (init_state 0) 2 =
     [\<lparr>index = 3, step = WaitForSelector ''#missing'' None None,
       message = ''Timeout 10000ms exceeded.'',
       screenshot = Some ''reports/x/error-step-3.png''\<rparr>] \<and>
   length (stepErrors (execute_steps (sample_env True) ''http://localhost:3000'' ''reports/x'' 0
      five_steps (init_state 0))) \<le> 5 \<and>
   (3::nat) \<le> length five_steps \<and>
   execute_steps (sample_env True) ''http://localhost:3000'' ''reports/x'' 0 five_steps
      (init_state 0) =
     execute_steps (sample_env True) ''http://localhost:3000'' ''reports/x'' 3 (drop 3 five_steps)
       (execute_steps (sample_env True) ''http://localhost:3000'' ''reports/x'' 0
          (take 3 five_steps) (init_state 0))"
proof -
  have l: "(2::nat) < length five_steps" "length five_steps = 5"
    by (simp_all add: five_steps_def)
  have a: "(case fst (step_action (sample_env True) ''http://localhost:3000'' ''reports/x'' (2 + 1)
                     (five_steps ! 2)
                     (execute_steps (sample_env True) ''http://localhost:3000'' ''reports/x'' 0
                        (take 2 five_steps) (init_state 0))) of
           Inl err \<Rightarrow> [\<lparr>index = 2 + 1, step = five_steps ! 2, message = message_of err,
                         screenshot = Some (error_shot (sample_env True) ''reports/x'' (2 + 1))\<rparr>]
         | Inr _ \<Rightarrow> []) =
     [\<lparr>index = 3, step = WaitForSelector ''#missing'' None None,
       message = ''Timeout 10000ms exceeded.'',
       screenshot = Some ''reports/x/error-step-3.png''\<rparr>]"
    by code_simp
  note t = step_errors_of_run [of "sample_env True" "''http://localhost:3000''" "''reports/x''"
            five_steps 0]
  have e: "entries_of (sample_env True) ''http://localhost:3000'' ''reports/x'' five_steps
             (init_state 0) 2 =
        (case fst (step_action (sample_env True) ''http://localhost:3000'' ''reports/x'' (2 + 1)
                     (five_steps ! 2)
                     (execute_steps (sample_env True) ''http://localhost:3000'' ''reports/x'' 0
                        (take 2 five_steps) (init_state 0))) of
           Inl err \<Rightarrow> [\<lparr>index = 2 + 1, step = five_steps ! 2, message = message_of err,
                         screenshot = Some (error_shot (sample_env True) ''reports/x'' (2 + 1))\<rparr>]
         | Inr _ \<Rightarrow> [])"
    by (rule t [THEN conjunct2, THEN conjunct2, THEN conjunct1, rule_format, OF l(1)])
  have le: "length (stepErrors (execute_steps (sample_env True) ''http://localhost:3000''
      ''reports/x'' 0 five_steps (init_state 0))) \<le> length five_steps"
    by (rule t [THEN conjunct2, THEN conjunct1])
  have l3: "(3::nat) \<le> length five_steps"
    by (simp add: five_steps_def)
  have go_on: "execute_steps (sample_env True) ''http://localhost:3000'' ''reports/x'' 0 five_steps
      (init_state 0) =
     execute_steps (sample_env True) ''http://localhost:3000'' ''reports/x'' 3 (drop 3 five_steps)
       (execute_steps (sample_env True) ''http://localhost:3000'' ''reports/x'' 0
          (take 3 five_steps) (init_state 0))"
    by (rule t [THEN conjunct2, THEN conjunct2, THEN conjunct2, rule_format, OF l3])
  show ?thesis
    using l(1) trans [OF e a] le [unfolded l(2)] l3 go_on by (intro conjI)
qed

text \<open>
  Claim C1 as stated fails: of five steps whose third (0-based index 2) times out, the
  run records one step error, not five outcomes.
\<close>

theorem outcome_per_step_counterexample:
  "length (stepErrors (execute_steps (sample_env True) ''http://localhost:3000'' ''reports/x'' 0
             five_steps (init_state 0))) \<noteq> length five_steps"
  by code_simp

lemma summarize_stepErrors:
  "summarize eng env argv test base tol st = Inr s \<Longrightarrow> sum_stepErrors s = stepErrors st"
  by (auto simp: summarize_def Let_def split: sum.splits)

lemma doStep_keeps_shots:
  "list_all (\<lambda>e. screenshot e = Some (error_shot env out (index e))) (stepErrors st) \<Longrightarrow>
   list_all (\<lambda>e. screenshot e = Some (error_shot env out (index e)))
     (stepErrors (doStep env base out i stp st))"
  by (simp add: doStep_stepErrors split: sum.splits)

lemma execute_steps_keeps_shots:
  "list_all (\<lambda>e. screenshot e = Some (error_shot env out (index e))) (stepErrors st) \<Longrightarrow>
   list_all (\<lambda>e. screenshot e = Some (error_shot env out (index e)))
     (stepErrors (execute_steps env base out i stps st))"
  by (induction stps arbitrary: i st) (simp_all add: doStep_keeps_shots)

lemma run_stepErrors:
  "run eng env argv parsed = Inr s \<Longrightarrow>
   \<exists>base out stps b.
     sum_stepErrors s = stepErrors (execute_steps env base out 0 stps (init_state b))"
  apply (auto simp: run_def Let_def fold_on_event_stepErrors
        split: sum.splits if_splits prod.splits dest!: summarize_stepErrors)
  apply (intro exI)
  apply (rule refl)
  done

lemma reported_errors_shots:
  "list_all (\<lambda>e. screenshot e \<noteq> None) (reported_errors (run eng env argv parsed))"
proof (cases "run eng env argv parsed")
  case (Inl e)
  then show ?thesis by (simp add: reported_errors_def)
next
  case (Inr s)
  then obtain base' out' stps' b' where
    "sum_stepErrors s = stepErrors (execute_steps env base' out' 0 stps' (init_state b'))"
    using run_stepErrors by blast
  then show ?thesis
    using Inr execute_steps_keeps_shots [of env out' "init_state b'" base' 0 stps']
    by (simp add: init_state_def list_all_iff reported_errors_def)
qed

text \<open>
  Claim C10.  Every recorded step error carries a screenshot path derived from its step
  number: the \<^verbatim>\<open>catch\<close> block pushes the entry with the path whatever the capture did,
  every entry of the step loop still has it at the end, and so has every entry of the
  summary that the run reports.
\<close>

theorem failed_step_has_screenshot:
  "list_all (\<lambda>e. screenshot e = Some (error_shot env out (index e)))
     (stepErrors (execute_steps env base out i stps (init_state b))) \<and>
   stepErrors (catch_step env out i stp err st) =
     stepErrors st @ [\<lparr>index = i, step = stp, message = message_of err,
                       screenshot = Some (error_shot env out i)\<rparr>] \<and>
   list_all (\<lambda>e. screenshot e \<noteq> None) (reported_errors (run eng env argv parsed))"
proof (intro conjI)
  show "list_all (\<lambda>e. screenshot e = Some (error_shot env out (index e)))
     (stepErrors (execute_steps env base out i stps (init_state b)))"
    by (rule execute_steps_keeps_shots) (simp add: init_state_def)
  show "stepErrors (catch_step env out i stp err st) =
     stepErrors st @ [\<lparr>index = i, step = stp, message = message_of err,
                       screenshot = Some (error_shot env out i)\<rparr>]"
    by (rule catch_step_stepErrors)
  show "list_all (\<lambda>e. screenshot e \<noteq> None) (reported_errors (run eng env argv parsed))"
    by (rule reported_errors_shots)
qed

text \<open>In a session where every screenshot fails, the step error of the third step still
  names its screenshot file.\<close>

theorem failed_step_has_screenshot_witness:
  "fst (page (sample_env False) (TakeScreenshot ''reports/x/error-step-3.png'') 3) =
     Inl (Error ''page.screenshot: Target closed'') \<and>
   map index (stepErrors (execute_steps (sample_env False) ''http://localhost:3000'' ''reports/x'' 0
        five_steps (init_state 0))) = [3] \<and>
   map screenshot (stepErrors (execute_steps (sample_env False) ''http://localhost:3000'' ''reports/x'' 0
        five_steps (init_state 0))) = [Some ''reports/x/error-step-3.png''] \<and>
   map index (reported_errors (run sample_engine (sample_env False) sample_argv
        (Inr (sample_test five_steps None)))) = [3] \<and>
   list_all (\<lambda>e. screenshot e \<noteq> None)
     (reported_errors (run sample_engine (sample_env False) sample_argv
        (Inr (sample_test five_steps None))))"
proof -
  have a: "fst (page (sample_env False) (TakeScreenshot ''reports/x/error-step-3.png'') 3) =
     Inl (Error ''page.screenshot: Target closed'')"
    by code_simp
  have b: "map index (stepErrors (execute_steps (sample_env False) ''http://localhost:3000''
        ''reports/x'' 0 five_steps (init_state 0))) = [3]"
    by code_simp
  have c: "error_shot (sample_env False) ''reports/x'' 3 = ''reports/x/error-step-3.png''"
    by code_simp
  have d: "map index (reported_errors (run sample_engine (sample_env False) sample_argv
        (Inr (sample_test five_steps None)))) = [3]"
    by code_simp
  show ?thesis
    using a b c d failed_step_has_screenshot [of "sample_env False" "''reports/x''"
            "''http://localhost:3000''" 0 five_steps 0 "Click []" "Error []" "init_state 0"
            sample_engine sample_argv "Inr (sample_test five_steps None)"]
    by (auto simp: list_all_iff)
qed

text \<open>
  Claim C9, as the code has it.  A screenshot step affects the verdict only through its
  own outcome.  Take a run that has reached state \<open>A\<close>, and compare going on with the
  steps \<open>ys\<close> directly and going on with a screenshot step first.  When both runs end
  with the same raw signals and the steps \<open>ys\<close> fail in the one exactly if they fail in
  the other, the verdict with the screenshot step is success if and only if the verdict
  without it is success and the capture did not raise: a capture that raises is recorded
  as a failed step like any other action.
\<close>

theorem screenshot_step_verdict:
  assumes B: "B = doStep env base out (j + 1) (Screenshot nm) A"
    and W: "Fw = execute_steps env base out (j + 1) ys B"
    and O: "Fo = execute_steps env base out j ys A"
    and logs: "consoleErrors Fw = consoleErrors Fo" "pageErrors Fw = pageErrors Fo"
      "requestFailures Fw = requestFailures Fo" "httpErrors Fw = httpErrors Fo"
    and others: "(stepErrors Fw = stepErrors B) = (stepErrors Fo = stepErrors A)"
  shows "\<exists>sw so. summarize eng env argv test base tol Fw = Inr sw \<and>
                 summarize eng env argv test base tol Fo = Inr so \<and>
                 (success sw \<longleftrightarrow>
                    success so \<and>
                    fst (step_action env base out (j + 1) (Screenshot nm) A) = Inr ())"
proof -
  obtain ew where ew: "stepErrors Fw = stepErrors B @ ew"
    using execute_steps_grows [of env base out "j + 1" ys B] W by blast
  obtain eo where eo: "stepErrors Fo = stepErrors A @ eo"
    using execute_steps_grows [of env base out j ys A] O by blast
  have shot: "stepErrors B = stepErrors A @
     (case fst (step_action env base out (j + 1) (Screenshot nm) A) of
        Inl err \<Rightarrow> [\<lparr>index = j + 1, step = Screenshot nm, message = message_of err,
                      screenshot = Some (error_shot env out (j + 1))\<rparr>]
      | Inr _ \<Rightarrow> [])"
    unfolding B by (rule doStep_stepErrors)
  have steps: "(stepErrors Fw = []) =
      (stepErrors Fo = [] \<and> fst (step_action env base out (j + 1) (Screenshot nm) A) = Inr ())"
    using others unfolding ew eo shot by (auto split: sum.splits)
  obtain sw where sw: "summarize eng env argv test base tol Fw = Inr sw"
    and vw: "success sw =
         (length (stepErrors Fw) = 0 \<and>
          pageOk argv tol (filteredPageErrors (pageErrors Fw)) \<and>
          consoleOk argv tol (filter (\<lambda>c. \<not> list_ex (allowlist_match eng (ce_text c)) (the_list (consolePatternAllowlist tol))) (consoleErrors Fw)) \<and>
          httpOk argv tol (filter (\<lambda>h. \<not> suppressed_http eng tol h) (httpErrors Fw)) \<and>
          reqOk argv tol (filteredRequestFailures (requestFailures Fw)))"
    using summarize_success [of eng env argv test base tol Fw] by blast
  obtain so where so: "summarize eng env argv test base tol Fo = Inr so"
    and vo: "success so =
         (length (stepErrors Fo) = 0 \<and>
          pageOk argv tol (filteredPageErrors (pageErrors Fo)) \<and>
          consoleOk argv tol (filter (\<lambda>c. \<not> list_ex (allowlist_match eng (ce_text c)) (the_list (consolePatternAllowlist tol))) (consoleErrors Fo)) \<and>
          httpOk argv tol (filter (\<lambda>h. \<not> suppressed_http eng tol h) (httpErrors Fo)) \<and>
          reqOk argv tol (filteredRequestFailures (requestFailures Fo)))"
    using summarize_success [of eng env argv test base tol Fo] by blast
  have "success sw \<longleftrightarrow>
          success so \<and> fst (step_action env base out (j + 1) (Screenshot nm) A) = Inr ()"
    unfolding vw vo logs using steps by auto
  with sw so show ?thesis by blast
qed

theorem screenshot_step_verdict_witness:
  "fst (step_action (sample_env False) ''http://localhost:3000'' ''reports/x'' (0 + 1)
          (Screenshot None) (init_state 0)) \<noteq> Inr () \<and>
   verdict (summarize sample_engine (sample_env False) sample_argv
      (sample_test [Wait 1] None) ''http://localhost:3000'' empty_tolerate
      (execute_steps (sample_env False) ''http://localhost:3000'' ''reports/x'' 0 [Wait 1]
         (init_state 0))) = Some True \<and>
   verdict (summarize sample_engine (sample_env False) sample_argv
      (sample_test [Wait 1] None) ''http://localhost:3000'' empty_tolerate
      (execute_steps (sample_env False) ''http://localhost:3000'' ''reports/x'' (0 + 1) [Wait 1]
         (doStep (sample_env False) ''http://localhost:3000'' ''reports/x'' (0 + 1)
            (Screenshot None) (init_state 0)))) = Some False"
proof -
  let ?E = "sample_env False" and ?b = "''http://localhost:3000''" and ?o = "''reports/x''"
  let ?A = "init_state 0 :: nat run_state"
  let ?B = "doStep ?E ?b ?o (0 + 1) (Screenshot None) ?A"
  let ?Fw = "execute_steps ?E ?b ?o (0 + 1) [Wait 1] ?B"
  let ?Fo = "execute_steps ?E ?b ?o 0 [Wait 1] ?A"
  have l1: "consoleErrors ?Fw = consoleErrors ?Fo" by code_simp
  have l2: "pageErrors ?Fw = pageErrors ?Fo" by code_simp
  have l3: "requestFailures ?Fw = requestFailures ?Fo" by code_simp
  have l4: "httpErrors ?Fw = httpErrors ?Fo" by code_simp
  have ot: "(stepErrors ?Fw = stepErrors ?B) = (stepErrors ?Fo = stepErrors ?A)" by code_simp
  have r: "fst (step_action ?E ?b ?o (0 + 1) (Screenshot None) ?A) \<noteq> Inr ()" by code_simp
  have v: "verdict (summarize sample_engine ?E sample_argv (sample_test [Wait 1] None) ?b
      empty_tolerate ?Fo) = Some True" by code_simp
  show ?thesis
    using r v screenshot_step_verdict [OF refl refl refl l1 l2 l3 l4 ot, of sample_engine sample_argv
            "sample_test [Wait 1] None" empty_tolerate]
    by (auto simp: verdict_def)
qed

text \<open>
  Claim C9 as stated fails: in a session where the capture raises, the run of a wait
  and a screenshot step ends in failure, the run of the wait alone in success; neither
  run collects any signal.
\<close>

theorem screenshot_step_counterexample:
  "verdict (run sample_engine (sample_env False) sample_argv
              (Inr (sample_test [Wait 1, Screenshot None] None))) \<noteq>
   verdict (run sample_engine (sample_env False) sample_argv
              (Inr (sample_test [Wait 1] None)))"
  by code_simp

section \<open>Exit status\<close>

text \<open>
  Claim C8 does not hold of the code.  A run whose verdict is failure, because a step
  failed or because signals were collected, resolves, and the process ends with
  status 0.  Only a run that rejects, as the one without a base URL does, ends with
  status 1.
\<close>

theorem exit_status_on_failed_verdict:
  "verdict (run sample_engine (sample_env True) sample_argv
              (Inr (sample_test five_steps None))) = Some False \<and>
   exit_status (run sample_engine (sample_env True) sample_argv
              (Inr (sample_test five_steps None))) = 0 \<and>
   verdict (run sample_engine (sample_env True) sample_argv
              (Inr (sample_test [Click ''#submit''] None))) = Some False \<and>
   exit_status (run sample_engine (sample_env True) sample_argv
              (Inr (sample_test [Click ''#submit''] None))) = 0 \<and>
   exit_status (run sample_engine (sample_env True) (sample_argv\<lparr>argv_baseUrl := None\<rparr>)
              (Inr (sample_test five_steps None))) = 1"
  by code_simp

end
